theory Spec2Isabelle
  imports Main "HOL-Library.Word"
begin

section \<open>Intrusive reference counting of the kernel Process (doc/doxygen/uhood.doc)\<close>

text \<open>
  The documented class is
  \<^verbatim>\<open>
  class Process {
    std::atomic_int_fast32_t refcount_ { 1 };
    simgrid::s4u::Actor actor_;
  public:
    Process() : actor_(this) {}
    friend void intrusive_ptr_add_ref(Process* process) {
      auto previous = (process->refcount_)++;
      xbt_assert(previous != 0);
    }
    friend void intrusive_ptr_release(Process* process) {
      auto count = --(process->refcount_);
      if (count == 0) delete process;
    }
  };
  \<close>
  The counter is a signed machine integer of at least 32 bits; its width \<open>'w\<close> is left
  open, so the record takes the counter's type as a parameter (32 bits where \<open>int_fast32_t\<close> is \<open>int\<close>, 64 bits where it is \<open>long\<close>). Atomic
  increments and decrements of a signed counter wrap around in two's complement, which is
  what \<open>+\<close> and \<open>-\<close> on \<open>'w word\<close> do; \<open>sint\<close> reads the signed value.

  Objects live in a store from addresses to objects. A pointer is \<open>None\<close> (the null
  pointer) or \<open>Some a\<close>; \<open>delete\<close> removes the address from the store. A failed
  \<open>xbt_assert\<close> aborts the program and is the error \<open>AssertionFailed\<close>; following a
  pointer to no object (undefined behaviour in the source) is the error
  \<open>InvalidPointer\<close>. The fields \<open>refcount_\<close>, \<open>actor_\<close> and \<open>pimpl_\<close> lose
  their trailing underscore, which Isabelle does not allow in a name.
\<close>

type_synonym address = nat

type_synonym smx_process_t = "address option"

record Actor =
  pimpl :: smx_process_t

record 'c Process =
  refcount :: 'c
  actor :: Actor

type_synonym 'w store = "address \<rightharpoonup> 'w word Process"

datatype xbt_error = AssertionFailed | InvalidPointer

text \<open>\<open>new Process()\<close> at a fresh address: the counter starts at 1, the actor points back.\<close>

definition Process_new :: "address \<Rightarrow> ('w::len) store \<Rightarrow> 'w store" where
  "Process_new this h = h(this \<mapsto> \<lparr>refcount = 1, actor = \<lparr>pimpl = Some this\<rparr>\<rparr>)"

definition intrusive_ptr_add_ref :: "address \<Rightarrow> ('w::len) store \<Rightarrow> xbt_error + 'w store" where
  "intrusive_ptr_add_ref process h =
     (case h process of
        None \<Rightarrow> Inl InvalidPointer
      | Some obj \<Rightarrow>
          (let previous = refcount obj;
               h' = h(process \<mapsto> obj\<lparr>refcount := refcount obj + 1\<rparr>)
           in if previous \<noteq> 0 then Inr h' else Inl AssertionFailed))"

definition intrusive_ptr_release :: "address \<Rightarrow> ('w::len) store \<Rightarrow> xbt_error + 'w store" where
  "intrusive_ptr_release process h =
     (case h process of
        None \<Rightarrow> Inl InvalidPointer
      | Some obj \<Rightarrow>
          (let count = refcount obj - 1;
               h' = h(process \<mapsto> obj\<lparr>refcount := count\<rparr>)
           in if count = 0 then Inr (h'(process := None)) else Inr h'))"

definition SIMIX_process_ref ::
  "smx_process_t \<Rightarrow> ('w::len) store \<Rightarrow> xbt_error + (smx_process_t \<times> 'w store)" where
  "SIMIX_process_ref process h =
     (case process of
        None \<Rightarrow> Inr (process, h)
      | Some a \<Rightarrow>
          (case intrusive_ptr_add_ref a h of
             Inl e \<Rightarrow> Inl e
           | Inr h' \<Rightarrow> Inr (process, h')))"

definition SIMIX_process_unref :: "smx_process_t \<Rightarrow> ('w::len) store \<Rightarrow> xbt_error + 'w store" where
  "SIMIX_process_unref process h =
     (case process of
        None \<Rightarrow> Inr h
      | Some a \<Rightarrow> intrusive_ptr_release a h)"

text \<open>The count of a live object, read as the signed integer it is.\<close>

definition refcount_of :: "('w::len) store \<Rightarrow> address \<Rightarrow> int option" where
  "refcount_of h a = map_option (\<lambda>obj. sint (refcount obj)) (h a)"

text \<open>The largest value of the counter type, \<open>INT_FAST32_MAX\<close>.\<close>

definition refcount_max :: "('w::len) word" where
  "refcount_max = 2 ^ (LENGTH('w) - 1) - 1"

section \<open>Snapshot capture and restore (Snapshot Manager)\<close>

text \<open>
  The sources name the model checker's classes (\<open>AddressSpace\<close>, \<open>Process\<close>,
  \<open>Snapshot\<close>) in one paragraph of doc/doxygen/uhood.doc and hold none of their code.
  The definitions of this section are written from the specification's data model and
  from its description of \<open>capture\<close> and \<open>restore\<close>. They cover the memory, the
  loaded-image layout and the heap-tracking table of a process; its run state and
  registers are not part of them.
\<close>

type_synonym byte = "8 word"

text \<open>
  Modelled from the spec: a region descriptor, missing from the sources. The region
  covers the addresses from \<open>region_start\<close> up to, not including,
  \<open>region_start + region_size\<close>.
\<close>

record region =
  region_start :: address
  region_size :: nat

text \<open>
  Modelled from the spec: a loaded object image of the Process ("each with a base
  address"), missing from the sources. Its segments are regions, each writable or not.
\<close>

record image =
  base :: address
  segments :: "(region \<times> bool) list"

text \<open>
  Modelled from the spec: an entry of the heap-tracking table ("for every live
  allocation, its start address, byte size, and a monotonically increasing generation
  id"), missing from the sources.
\<close>

record heap_block =
  block_start :: address
  block_size :: nat
  generation :: nat

text \<open>
  Modelled from the spec: the Live Process ("the set of loaded object images ... and a
  heap-tracking table"), missing from the sources, with the bytes of its address space.
\<close>

record Process_mc =
  images :: "image list"
  heap_table :: "heap_block list"
  memory :: "address \<Rightarrow> byte"

text \<open>
  Modelled from the spec: the Snapshot ("a set of (region descriptor, byte copy) pairs
  ..., plus the heap-tracking table's contents at capture time, plus a fingerprint"),
  missing from the sources, with the layout recorded at capture time that \<open>restore\<close>
  compares.
\<close>

record 'fp Snapshot =
  snap_layout :: "image list"
  snap_regions :: "(region \<times> byte list) list"
  snap_heap :: "heap_block list"
  fingerprint :: 'fp

text \<open>Modelled from the spec: the error kinds of section 7 that these operations raise.\<close>

datatype mc_error = NotMapped | LayoutMismatch

text \<open>
  Modelled from the spec: the range of a live heap block as a region, and when a range of
  \<open>n\<close> bytes at \<open>a\<close> lies within a region; helpers missing from the sources.
\<close>

definition block_region :: "heap_block \<Rightarrow> region" where
  "block_region b = \<lparr>region_start = block_start b, region_size = block_size b\<rparr>"

definition in_region :: "region \<Rightarrow> address \<Rightarrow> nat \<Rightarrow> bool" where
  "in_region r a n \<longleftrightarrow> region_start r \<le> a \<and> a + n \<le> region_start r + region_size r"

text \<open>
  Modelled from the spec: the known-valid regions of a Live Process, missing from the
  sources: the segments of every loaded image and the ranges of the live heap blocks.
\<close>

definition valid_regions :: "Process_mc \<Rightarrow> region list" where
  "valid_regions p =
     map fst (concat (map segments (images p))) @ map block_region (heap_table p)"

text \<open>
  Modelled from the spec: \<open>readBytes(address, length) -> bytes | NotMapped\<close> on the
  Live backend, missing from the sources; and the write of bytes that \<open>restore\<close> needs
  ("read/write its memory pages"). A range is readable and writable when it lies within
  a known-valid region.
\<close>

definition readBytes :: "Process_mc \<Rightarrow> address \<Rightarrow> nat \<Rightarrow> mc_error + byte list" where
  "readBytes p a n =
     (if \<exists>r \<in> set (valid_regions p). in_region r a n
      then Inr (map (memory p) [a ..< a + n])
      else Inl NotMapped)"

text \<open>
  Modelled from the spec: the write of bytes into the process's memory, missing from the
  sources: the bytes \<open>bs\<close> replace the memory from \<open>a\<close> on; a write outside every
  known-valid region fails like a read there.
\<close>

definition write_mem :: "(address \<Rightarrow> byte) \<Rightarrow> address \<Rightarrow> byte list \<Rightarrow> address \<Rightarrow> byte" where
  "write_mem m a bs = (\<lambda>x. if a \<le> x \<and> x < a + length bs then bs ! (x - a) else m x)"

definition writeBytes :: "Process_mc \<Rightarrow> address \<Rightarrow> byte list \<Rightarrow> mc_error + Process_mc" where
  "writeBytes p a bs =
     (if \<exists>r \<in> set (valid_regions p). in_region r a (length bs)
      then Inr (p\<lparr>memory := write_mem (memory p) a bs\<rparr>)
      else Inl NotMapped)"

text \<open>
  Modelled from the spec: the regions \<open>capture\<close> enumerates ("writable segments from
  all loaded images, plus the heap-tracking table's live-block ranges"), missing from
  the sources.
\<close>

definition capture_regions :: "Process_mc \<Rightarrow> region list" where
  "capture_regions p =
     map fst (filter snd (concat (map segments (images p)))) @
     map block_region (heap_table p)"

text \<open>
  Modelled from the spec: "copies their bytes", one read per region, in order; a failed
  read fails the copy. Missing from the sources.
\<close>

fun copy_regions :: "Process_mc \<Rightarrow> region list \<Rightarrow> mc_error + (region \<times> byte list) list" where
  "copy_regions p [] = Inr []"
| "copy_regions p (r # rs) =
     (case readBytes p (region_start r) (region_size r) of
        Inl e \<Rightarrow> Inl e
      | Inr bs \<Rightarrow>
          (case copy_regions p rs of
             Inl e \<Rightarrow> Inl e
           | Inr cs \<Rightarrow> Inr ((r, bs) # cs)))"

text \<open>
  Modelled from the spec: \<open>capture(process) -> Snapshot\<close> ("enumerates the regions to
  capture ..., copies their bytes, computes the fingerprint, and returns an immutable
  Snapshot"), missing from the sources. The spec does not fix the digest; it is the
  parameter \<open>digest\<close>, applied to the captured bytes.
\<close>

definition capture :: "(byte list \<Rightarrow> 'fp) \<Rightarrow> Process_mc \<Rightarrow> mc_error + 'fp Snapshot" where
  "capture digest p =
     (case copy_regions p (capture_regions p) of
        Inl e \<Rightarrow> Inl e
      | Inr cs \<Rightarrow>
          Inr \<lparr>snap_layout = images p, snap_regions = cs, snap_heap = heap_table p,
               fingerprint = digest (concat (map snd cs))\<rparr>)"

text \<open>
  Modelled from the spec: "writes the snapshot's captured bytes back into the
  corresponding regions", one write per captured region, in order; a failed write fails
  the restore. Missing from the sources.
\<close>

fun write_regions :: "Process_mc \<Rightarrow> (region \<times> byte list) list \<Rightarrow> mc_error + Process_mc" where
  "write_regions p [] = Inr p"
| "write_regions p ((r, bs) # cs) =
     (case writeBytes p (region_start r) bs of
        Inl e \<Rightarrow> Inl e
      | Inr p' \<Rightarrow> write_regions p' cs)"

text \<open>
  Modelled from the spec: \<open>restore(process, snapshot)\<close> ("writes the snapshot's captured
  bytes back into the corresponding regions of the Live Process, and resets the
  heap-tracking table to the captured state. Precondition: the Process's loaded-image
  layout must match the layout recorded at capture time ...; mismatch fails with
  LayoutMismatch"), missing from the sources.
\<close>

definition restore :: "Process_mc \<Rightarrow> 'fp Snapshot \<Rightarrow> mc_error + Process_mc" where
  "restore p s =
     (if images p \<noteq> snap_layout s then Inl LayoutMismatch
      else write_regions (p\<lparr>heap_table := snap_heap s\<rparr>) (snap_regions s))"

text \<open>
  Modelled from the spec: what "a previously-valid address" and "a captured address"
  are: some region of a list holds the address. And the memory left by writing a list of
  byte copies, each at the start of its region, in order, which is what \<open>write_regions\<close>
  leaves when every write succeeds.
\<close>

definition region_holds :: "region \<Rightarrow> address \<Rightarrow> bool" where
  "region_holds r x \<longleftrightarrow> region_start r \<le> x \<and> x < region_start r + region_size r"

definition regions_hold :: "region list \<Rightarrow> address \<Rightarrow> bool" where
  "regions_hold rs x \<longleftrightarrow> (\<exists>r \<in> set rs. region_holds r x)"

fun write_all :: "(address \<Rightarrow> byte) \<Rightarrow> (region \<times> byte list) list \<Rightarrow> address \<Rightarrow> byte" where
  "write_all m [] = m"
| "write_all m ((r, bs) # cs) = write_all (write_mem m (region_start r) bs) cs"

text \<open>
  The scenario of the spec's section 8: a process with one image (a read-only and a
  writable segment) and one tracked allocation of 64 bytes at address 20000; later the
  same process has freed that block, allocated 32 bytes at address 30000 and overwritten
  its writable memory.
\<close>

definition scenario_before :: Process_mc where
  "scenario_before =
     \<lparr>images = [\<lparr>base = 4096, segments =
                  [(\<lparr>region_start = 4096, region_size = 8\<rparr>, False),
                   (\<lparr>region_start = 8192, region_size = 4\<rparr>, True)]\<rparr>],
      heap_table = [\<lparr>block_start = 20000, block_size = 64, generation = 1\<rparr>],
      memory = (\<lambda>x. if x < 8192 then 7 else if x < 20000 then 1 else 2)\<rparr>"

definition scenario_after :: Process_mc where
  "scenario_after =
     \<lparr>images = [\<lparr>base = 4096, segments =
                  [(\<lparr>region_start = 4096, region_size = 8\<rparr>, False),
                   (\<lparr>region_start = 8192, region_size = 4\<rparr>, True)]\<rparr>],
      heap_table = [\<lparr>block_start = 30000, block_size = 32, generation = 2\<rparr>],
      memory = (\<lambda>x. if x < 8192 then 7 else 9)\<rparr>"

section \<open>Properties of the reference count\<close>

subsection \<open>Signed reading of the counter\<close>

text \<open>
  A positive signed value needs at least two bits. Below the largest value the increment
  is the integer successor; on a positive value the decrement is the integer predecessor;
  at the largest value the increment wraps to the smallest (negative) value.
\<close>

lemma len_gt1_of_sint_pos:
  fixes x :: "'w::len word"
  assumes "0 < sint x"
  shows "1 < LENGTH('w)"
proof (rule ccontr)
  assume "\<not> 1 < LENGTH('w)"
  then have "LENGTH('w) = 1" using len_gt_0 [where 'a='w] by linarith
  with sint_lt [of x] have "sint x < 1" by simp
  with assms show False by simp
qed

lemma sint_refcount_max: "sint (refcount_max :: 'w::len word) = 2 ^ (LENGTH('w) - 1) - 1"
proof -
  have "(refcount_max :: 'w word) = word_of_int (2 ^ (LENGTH('w) - 1) - 1)"
    by (simp add: refcount_max_def)
  moreover have "sint (word_of_int (2 ^ (LENGTH('w) - 1) - 1) :: 'w word)
      = signed_take_bit (LENGTH('w) - 1) (2 ^ (LENGTH('w) - 1) - 1)"
    by (rule sint_sbintrunc')
  ultimately have "sint (refcount_max :: 'w word) = signed_take_bit (LENGTH('w) - 1) (2 ^ (LENGTH('w) - 1) - 1)"
    by simp
  also have "\<dots> = 2 ^ (LENGTH('w) - 1) - 1"
    by (rule signed_take_bit_int_eq_self) simp_all
  finally show ?thesis .
qed

lemma sint_succ_pos:
  fixes x :: "'w::len word"
  assumes "0 < sint x" "x \<noteq> refcount_max"
  shows "sint (x + 1) = sint x + 1"
proof -
  have len: "1 < LENGTH('w)" using assms(1) by (rule len_gt1_of_sint_pos)
  have "sint x \<noteq> sint (refcount_max :: 'w word)"
    using assms(2) signed_word_eqI [of x refcount_max] by auto
  then have "sint x \<noteq> 2 ^ (LENGTH('w) - 1) - 1" by (simp add: sint_refcount_max)
  with sint_lt [of x] have up: "sint x + 1 < 2 ^ (LENGTH('w) - 1)" by linarith
  have lo: "- (2 ^ (LENGTH('w) - 1)) \<le> sint x + 1" using sint_ge [of x] by linarith
  have "sint (x + 1) = signed_take_bit (LENGTH('w) - 1) (sint x + sint (1 :: 'w word))"
    by (rule sint_word_add)
  also have "sint (1 :: 'w word) = 1" using len by simp
  also have "signed_take_bit (LENGTH('w) - 1) (sint x + 1) = sint x + 1"
    using lo up by (rule signed_take_bit_int_eq_self)
  finally show ?thesis .
qed

lemma sint_pred_pos:
  fixes x :: "'w::len word"
  assumes "0 < sint x"
  shows "sint (x - 1) = sint x - 1"
proof -
  have len: "1 < LENGTH('w)" using assms(1) by (rule len_gt1_of_sint_pos)
  have up: "sint x - 1 < 2 ^ (LENGTH('w) - 1)" using sint_lt [of x] by linarith
  have "(0::int) \<le> 2 ^ (LENGTH('w) - 1)" by simp
  then have lo: "- (2 ^ (LENGTH('w) - 1)) \<le> sint x - 1" using assms by linarith
  have "sint (x - 1) = signed_take_bit (LENGTH('w) - 1) (sint x - sint (1 :: 'w word))"
    by (rule sint_word_diff)
  also have "sint (1 :: 'w word) = 1" using len by simp
  also have "signed_take_bit (LENGTH('w) - 1) (sint x - 1) = sint x - 1"
    using lo up by (rule signed_take_bit_int_eq_self)
  finally show ?thesis .
qed

lemma sint_eq_1_iff:
  fixes x :: "'w::len word"
  assumes "0 < sint x"
  shows "sint x = 1 \<longleftrightarrow> x = 1"
proof -
  have len: "1 < LENGTH('w)" using assms(1) by (rule len_gt1_of_sint_pos)
  then have one: "sint (1 :: 'w word) = 1" by simp
  show ?thesis
  proof
    assume "sint x = 1"
    then have "sint x = sint (1 :: 'w word)" using one by simp
    then show "x = 1" by (rule signed_word_eqI)
  next
    assume "x = 1"
    then show "sint x = 1" using one by simp
  qed
qed

lemma sint_max_succ:
  "sint ((refcount_max :: 'w::len word) + 1) = - (2 ^ (LENGTH('w) - 1))"
proof -
  have "sint ((refcount_max :: 'w word) + 1)
      = signed_take_bit (LENGTH('w) - 1) (sint (refcount_max :: 'w word) + sint (1 :: 'w word))"
    by (rule sint_word_add)
  show ?thesis
  proof (cases "LENGTH('w) = 1")
    case True
    then show ?thesis by (simp add: refcount_max_def)
  next
    case False
    then have one: "sint (1 :: 'w word) = 1" by simp
    have "sint ((refcount_max :: 'w word) + 1)
      = signed_take_bit (LENGTH('w) - 1) (2 ^ (LENGTH('w) - 1) - 1 + 1)"
      by (simp only: sint_word_add sint_refcount_max one)
    also have "\<dots> = - (2 ^ (LENGTH('w) - 1))"
    proof -
      have "Suc (LENGTH('w) - 1) = LENGTH('w)" by simp
      then have "(2::int) * 2 ^ (LENGTH('w) - 1) = 2 ^ LENGTH('w)"
        by (metis power_Suc)
      then show ?thesis
        by (simp add: signed_take_bit_eq_take_bit_shift)
    qed
    finally show ?thesis .
  qed
qed


subsection \<open>The operations on one object\<close>

lemma Process_new_refcount:
  assumes "1 < LENGTH('w::len)"
  shows "refcount_of (Process_new a (h :: 'w store)) a = Some 1"
  using assms by (simp add: refcount_of_def Process_new_def)

lemma add_ref_result:
  "h p = Some obj \<Longrightarrow>
   intrusive_ptr_add_ref p h =
     (if refcount obj = 0 then Inl AssertionFailed
      else Inr (h(p \<mapsto> obj\<lparr>refcount := refcount obj + 1\<rparr>)))"
  by (simp add: intrusive_ptr_add_ref_def)

lemma release_result:
  "h p = Some obj \<Longrightarrow>
   intrusive_ptr_release p h =
     (if refcount obj = 1 then Inr (h(p := None))
      else Inr (h(p \<mapsto> obj\<lparr>refcount := refcount obj - 1\<rparr>)))"
  by (simp add: intrusive_ptr_release_def Let_def)

lemma add_ref_keeps_positive:
  fixes h :: "'w::len store"
  assumes "h p = Some obj" "0 < sint (refcount obj)" "refcount obj \<noteq> refcount_max"
  shows "\<exists>h'. intrusive_ptr_add_ref p h = Inr h' \<and>
           refcount_of h' p = Some (sint (refcount obj) + 1) \<and>
           (\<forall>q. q \<noteq> p \<longrightarrow> h' q = h q)"
proof -
  have nz: "refcount obj \<noteq> 0" using assms(2) by auto
  have "sint (refcount obj + 1) = sint (refcount obj) + 1"
    using assms(2,3) by (rule sint_succ_pos)
  then show ?thesis
    using assms(1) nz by (simp add: add_ref_result refcount_of_def)
qed

lemma release_keeps_positive:
  fixes h :: "'w::len store"
  assumes "h p = Some obj" "0 < sint (refcount obj)"
  shows "\<exists>h'. intrusive_ptr_release p h = Inr h' \<and>
           (if sint (refcount obj) = 1 then h' p = None
            else refcount_of h' p = Some (sint (refcount obj) - 1) \<and> 0 < sint (refcount obj) - 1) \<and>
           (\<forall>q. q \<noteq> p \<longrightarrow> h' q = h q)"
proof -
  have eq1: "sint (refcount obj) = 1 \<longleftrightarrow> refcount obj = 1"
    using assms(2) by (rule sint_eq_1_iff)
  have "sint (refcount obj - 1) = sint (refcount obj) - 1"
    using assms(2) by (rule sint_pred_pos)
  then show ?thesis
    using assms eq1 by (auto simp: release_result refcount_of_def)
qed

text \<open>
  The wrappers on a pointer that is not null are the operations on the object it points
  to: \<open>SIMIX_process_ref\<close> hands the pointer back with the store that
  \<open>intrusive_ptr_add_ref\<close> leaves, \<open>SIMIX_process_unref\<close> is \<open>intrusive_ptr_release\<close>.
\<close>

lemma SIMIX_process_ref_Some:
  "SIMIX_process_ref (Some p) h =
     (case intrusive_ptr_add_ref p h of Inl e \<Rightarrow> Inl e | Inr h' \<Rightarrow> Inr (Some p, h'))"
  by (simp add: SIMIX_process_ref_def)

lemma SIMIX_process_unref_Some:
  "SIMIX_process_unref (Some p) h = intrusive_ptr_release p h"
  by (simp add: SIMIX_process_unref_def)

lemma SIMIX_process_ref_keeps_positive:
  fixes h :: "'w::len store"
  assumes "h p = Some obj" "0 < sint (refcount obj)" "refcount obj \<noteq> refcount_max"
  shows "\<exists>h'. SIMIX_process_ref (Some p) h = Inr (Some p, h') \<and>
           refcount_of h' p = Some (sint (refcount obj) + 1) \<and>
           (\<forall>q. q \<noteq> p \<longrightarrow> h' q = h q)"
proof -
  from add_ref_keeps_positive [of h p obj] assms
  obtain h' where "intrusive_ptr_add_ref p h = Inr h'"
    "refcount_of h' p = Some (sint (refcount obj) + 1)" "\<forall>q. q \<noteq> p \<longrightarrow> h' q = h q"
    by blast
  then show ?thesis by (simp add: SIMIX_process_ref_Some)
qed

lemma SIMIX_process_unref_keeps_positive:
  fixes h :: "'w::len store"
  assumes "h p = Some obj" "0 < sint (refcount obj)"
  shows "\<exists>h'. SIMIX_process_unref (Some p) h = Inr h' \<and>
           (if sint (refcount obj) = 1 then h' p = None
            else refcount_of h' p = Some (sint (refcount obj) - 1) \<and> 0 < sint (refcount obj) - 1) \<and>
           (\<forall>q. q \<noteq> p \<longrightarrow> h' q = h q)"
  using release_keeps_positive [of h p obj] assms by (simp only: SIMIX_process_unref_Some)

text \<open>
  At the largest value of the counter the increment succeeds (the previous value is not
  zero) and leaves a negative count, at every width of the counter.
\<close>

lemma add_ref_wraps_at_max:
  fixes h :: "'w::len store"
  assumes "h p = Some obj" "refcount obj = refcount_max" "1 < LENGTH('w)"
  shows "intrusive_ptr_add_ref p h = Inr (h(p \<mapsto> obj\<lparr>refcount := refcount_max + 1\<rparr>)) \<and>
         sint (refcount_max + 1 :: 'w word) < 0"
proof -
  have "sint (refcount_max :: 'w word) = 2 ^ (LENGTH('w) - 1) - 1"
    by (rule sint_refcount_max)
  moreover have "(1::int) < 2 ^ (LENGTH('w) - 1)"
    using assms(3) by (metis One_nat_def less_diff_conv one_less_power one_less_numeral_iff
        plus_1_eq_Suc semiring_norm(76) zero_less_diff)
  ultimately have "sint (refcount_max :: 'w word) \<noteq> 0" by simp
  then have nz: "(refcount_max :: 'w word) \<noteq> 0" by auto
  have "sint (refcount_max + 1 :: 'w word) < 0"
    by (simp only: sint_max_succ) simp
  then show ?thesis
    using assms(1,2) nz by (simp add: add_ref_result)
qed

text \<open>
  C10, with the bound on the counter that the code needs. The intrusive reference count
  of a kernel Process starts at 1 on construction. Every operation keeps it positive
  while the object is alive. While it is positive and below the largest value of the
  counter type, \<open>intrusive_ptr_add_ref\<close>, and \<open>SIMIX_process_ref\<close> on a pointer to the
  object, succeed and leave it one higher, so positive. While it is positive,
  \<open>intrusive_ptr_release\<close>, and \<open>SIMIX_process_unref\<close> on a pointer to the object,
  succeed and leave it one lower and still positive or, when it was 1, delete the object.
  None of the four touches another object. \<open>intrusive_ptr_release\<close> and
  \<open>SIMIX_process_unref\<close> decrement the count and delete the Process exactly when the
  decremented count is zero. \<open>intrusive_ptr_add_ref\<close> and \<open>SIMIX_process_ref\<close> on a
  count of zero are an assertion failure. \<open>SIMIX_process_ref p\<close> returns \<open>p\<close>, and
  \<open>SIMIX_process_ref\<close> and \<open>SIMIX_process_unref\<close> do nothing on a null pointer.
\<close>

theorem refcount_protocol:
  fixes h :: "'w::len store"
  assumes width: "32 \<le> LENGTH('w)"
  shows
  "refcount_of (Process_new a h) a = Some 1 \<and>
   (h p = Some obj \<and> 0 < sint (refcount obj) \<and> refcount obj \<noteq> refcount_max \<longrightarrow>
      (\<exists>h'. intrusive_ptr_add_ref p h = Inr h' \<and>
            refcount_of h' p = Some (sint (refcount obj) + 1) \<and>
            (\<forall>q. q \<noteq> p \<longrightarrow> h' q = h q))) \<and>
   (h p = Some obj \<and> 0 < sint (refcount obj) \<longrightarrow>
      (\<exists>h'. intrusive_ptr_release p h = Inr h' \<and>
            (if sint (refcount obj) = 1 then h' p = None
             else refcount_of h' p = Some (sint (refcount obj) - 1) \<and>
                  0 < sint (refcount obj) - 1) \<and>
            (\<forall>q. q \<noteq> p \<longrightarrow> h' q = h q))) \<and>
   (h p = Some obj \<longrightarrow>
      intrusive_ptr_release p h =
        (if refcount obj - 1 = 0 then Inr (h(p := None))
         else Inr (h(p \<mapsto> obj\<lparr>refcount := refcount obj - 1\<rparr>)))) \<and>
   (h p = Some obj \<and> refcount obj = 0 \<longrightarrow>
      intrusive_ptr_add_ref p h = Inl AssertionFailed) \<and>
   (SIMIX_process_ref sp h = Inr (sq, h2) \<longrightarrow> sq = sp) \<and>
   SIMIX_process_ref None h = Inr (None, h) \<and>
   SIMIX_process_unref None h = Inr h \<and>
   (h p = Some obj \<and> 0 < sint (refcount obj) \<and> refcount obj \<noteq> refcount_max \<longrightarrow>
      (\<exists>h'. SIMIX_process_ref (Some p) h = Inr (Some p, h') \<and>
            refcount_of h' p = Some (sint (refcount obj) + 1) \<and>
            (\<forall>q. q \<noteq> p \<longrightarrow> h' q = h q))) \<and>
   (h p = Some obj \<and> 0 < sint (refcount obj) \<longrightarrow>
      (\<exists>h'. SIMIX_process_unref (Some p) h = Inr h' \<and>
            (if sint (refcount obj) = 1 then h' p = None
             else refcount_of h' p = Some (sint (refcount obj) - 1) \<and>
                  0 < sint (refcount obj) - 1) \<and>
            (\<forall>q. q \<noteq> p \<longrightarrow> h' q = h q))) \<and>
   (h p = Some obj \<longrightarrow>
      SIMIX_process_unref (Some p) h =
        (if refcount obj - 1 = 0 then Inr (h(p := None))
         else Inr (h(p \<mapsto> obj\<lparr>refcount := refcount obj - 1\<rparr>)))) \<and>
   (h p = Some obj \<longrightarrow>
      SIMIX_process_ref (Some p) h =
        (if refcount obj = 0 then Inl AssertionFailed
         else Inr (Some p, h(p \<mapsto> obj\<lparr>refcount := refcount obj + 1\<rparr>))))"
proof -
  have len: "1 < LENGTH('w)" using width by simp
  have c1: "refcount_of (Process_new a h) a = Some 1"
    using len by (rule Process_new_refcount)
  have c2: "h p = Some obj \<and> 0 < sint (refcount obj) \<and> refcount obj \<noteq> refcount_max \<longrightarrow>
      (\<exists>h'. intrusive_ptr_add_ref p h = Inr h' \<and>
            refcount_of h' p = Some (sint (refcount obj) + 1) \<and>
            (\<forall>q. q \<noteq> p \<longrightarrow> h' q = h q))"
    using add_ref_keeps_positive [of h p obj] by blast
  have c3: "h p = Some obj \<and> 0 < sint (refcount obj) \<longrightarrow>
      (\<exists>h'. intrusive_ptr_release p h = Inr h' \<and>
            (if sint (refcount obj) = 1 then h' p = None
             else refcount_of h' p = Some (sint (refcount obj) - 1) \<and>
                  0 < sint (refcount obj) - 1) \<and>
            (\<forall>q. q \<noteq> p \<longrightarrow> h' q = h q))"
    using release_keeps_positive [of h p obj] by blast
  have c4: "h p = Some obj \<longrightarrow>
      intrusive_ptr_release p h =
        (if refcount obj - 1 = 0 then Inr (h(p := None))
         else Inr (h(p \<mapsto> obj\<lparr>refcount := refcount obj - 1\<rparr>)))"
    by (simp add: release_result)
  have c5: "h p = Some obj \<and> refcount obj = 0 \<longrightarrow>
      intrusive_ptr_add_ref p h = Inl AssertionFailed"
    by (simp add: add_ref_result)
  have c6: "SIMIX_process_ref sp h = Inr (sq, h2) \<longrightarrow> sq = sp"
    by (auto simp: SIMIX_process_ref_def split: option.splits sum.splits)
  have c7: "SIMIX_process_ref None h = Inr (None, h)"
    by (simp add: SIMIX_process_ref_def)
  have c8: "SIMIX_process_unref None h = Inr h"
    by (simp add: SIMIX_process_unref_def)
  have c9: "h p = Some obj \<and> 0 < sint (refcount obj) \<and> refcount obj \<noteq> refcount_max \<longrightarrow>
      (\<exists>h'. SIMIX_process_ref (Some p) h = Inr (Some p, h') \<and>
            refcount_of h' p = Some (sint (refcount obj) + 1) \<and>
            (\<forall>q. q \<noteq> p \<longrightarrow> h' q = h q))"
    using SIMIX_process_ref_keeps_positive [of h p obj] by blast
  have c10: "h p = Some obj \<and> 0 < sint (refcount obj) \<longrightarrow>
      (\<exists>h'. SIMIX_process_unref (Some p) h = Inr h' \<and>
            (if sint (refcount obj) = 1 then h' p = None
             else refcount_of h' p = Some (sint (refcount obj) - 1) \<and>
                  0 < sint (refcount obj) - 1) \<and>
            (\<forall>q. q \<noteq> p \<longrightarrow> h' q = h q))"
    using SIMIX_process_unref_keeps_positive [of h p obj] by blast
  have c11: "h p = Some obj \<longrightarrow>
      SIMIX_process_unref (Some p) h =
        (if refcount obj - 1 = 0 then Inr (h(p := None))
         else Inr (h(p \<mapsto> obj\<lparr>refcount := refcount obj - 1\<rparr>)))"
    by (simp add: SIMIX_process_unref_Some release_result)
  have c12: "h p = Some obj \<longrightarrow>
      SIMIX_process_ref (Some p) h =
        (if refcount obj = 0 then Inl AssertionFailed
         else Inr (Some p, h(p \<mapsto> obj\<lparr>refcount := refcount obj + 1\<rparr>)))"
    by (simp add: SIMIX_process_ref_Some add_ref_result)
  show ?thesis
    by (intro conjI c1 c2 c3 c4 c5 c6 c7 c8 c9 c10 c11 c12)
qed

text \<open>
  The theorem at a 32-bit counter, on a freshly constructed Process at address 7 and on
  an object whose count is zero.
\<close>

theorem refcount_protocol_witness:
  "32 \<le> LENGTH(32) \<and>
   refcount_of (Process_new 7 (Map.empty :: 32 store)) 7 = Some 1 \<and>
   (\<exists>h'. intrusive_ptr_add_ref 7 (Process_new 7 (Map.empty :: 32 store)) = Inr h' \<and>
         refcount_of h' 7 = Some 2) \<and>
   (\<exists>h'. intrusive_ptr_release 7 (Process_new 7 (Map.empty :: 32 store)) = Inr h' \<and>
         h' 7 = None) \<and>
   intrusive_ptr_add_ref 7 [7 \<mapsto> \<lparr>refcount = 0 :: 32 word, actor = \<lparr>pimpl = Some 7\<rparr>\<rparr>]
     = Inl AssertionFailed \<and>
   SIMIX_process_ref (Some 7) [7 \<mapsto> \<lparr>refcount = 0 :: 32 word, actor = \<lparr>pimpl = Some 7\<rparr>\<rparr>]
     = Inl AssertionFailed \<and>
   SIMIX_process_ref (Some 7) (Process_new 7 (Map.empty :: 32 store))
     = Inr (Some 7, [7 \<mapsto> \<lparr>refcount = 2, actor = \<lparr>pimpl = Some 7\<rparr>\<rparr>]) \<and>
   (\<exists>h'. SIMIX_process_ref (Some 7) (Process_new 7 (Map.empty :: 32 store)) = Inr (Some 7, h') \<and>
         refcount_of h' 7 = Some 2) \<and>
   (\<exists>h'. SIMIX_process_unref (Some 7) (Process_new 7 (Map.empty :: 32 store)) = Inr h' \<and>
         h' 7 = None) \<and>
   SIMIX_process_unref (Some 7) [7 \<mapsto> \<lparr>refcount = 3 :: 32 word, actor = \<lparr>pimpl = Some 7\<rparr>\<rparr>]
     = Inr [7 \<mapsto> \<lparr>refcount = 2, actor = \<lparr>pimpl = Some 7\<rparr>\<rparr>]"
proof -
  let ?new = "Process_new 7 (Map.empty :: 32 store)"
  let ?obj = "\<lambda>n :: 32 word. \<lparr>refcount = n, actor = \<lparr>pimpl = Some (7 :: address)\<rparr>\<rparr>"
  have width: "32 \<le> LENGTH(32)" by simp
  have new: "?new 7 = Some (?obj 1)" by (simp add: Process_new_def)
  have pos: "0 < sint (refcount (?obj 1))" by simp
  have below: "refcount (?obj 1) \<noteq> (refcount_max :: 32 word)" by (simp add: refcount_max_def)
  have zero: "[7 \<mapsto> ?obj 0] 7 = Some (?obj 0)" by simp
  have three: "[7 \<mapsto> ?obj 3] 7 = Some (?obj 3)" by simp
  note fresh = refcount_protocol [OF width, where h = ?new and a = 7 and p = 7
      and obj = "?obj 1" and sp = "Some 7" and sq = "Some 7"
      and ?h2.0 = "[7 \<mapsto> ?obj 2]"]
  note at_zero = refcount_protocol [OF width, where h = "[7 \<mapsto> ?obj 0]" and p = 7
      and obj = "?obj 0"]
  note at_three = refcount_protocol [OF width, where h = "[7 \<mapsto> ?obj 3]" and p = 7
      and obj = "?obj 3"]
  from refcount_protocol [OF width, where h = "Map.empty :: 32 store" and a = 7]
  have c1: "refcount_of ?new 7 = Some 1"
    by blast
  from fresh new pos below
  have c2: "\<exists>h'. intrusive_ptr_add_ref 7 ?new = Inr h' \<and> refcount_of h' 7 = Some 2"
    by auto
  from fresh new pos
  have c3: "\<exists>h'. intrusive_ptr_release 7 ?new = Inr h' \<and> h' 7 = None"
    by auto
  from at_zero zero
  have c4: "intrusive_ptr_add_ref 7 [7 \<mapsto> ?obj 0] = Inl AssertionFailed"
    by simp
  from at_zero zero
  have c5: "SIMIX_process_ref (Some 7) [7 \<mapsto> ?obj 0] = Inl AssertionFailed"
    by simp
  from fresh new
  have c6: "SIMIX_process_ref (Some 7) ?new = Inr (Some 7, [7 \<mapsto> ?obj 2])"
    by (simp add: Process_new_def)
  from fresh new pos below
  have c7: "\<exists>h'. SIMIX_process_ref (Some 7) ?new = Inr (Some 7, h') \<and> refcount_of h' 7 = Some 2"
    by auto
  from fresh new pos
  have c8: "\<exists>h'. SIMIX_process_unref (Some 7) ?new = Inr h' \<and> h' 7 = None"
    by auto
  from at_three three
  have c9: "SIMIX_process_unref (Some 7) [7 \<mapsto> ?obj 3] = Inr [7 \<mapsto> ?obj 2]"
    by simp
  from width c1 c2 c3 c4 c5 c6 c7 c8 c9 show ?thesis by simp
qed

text \<open>
  Without the bound the count is not kept positive by every operation: on a live object
  whose counter holds the largest value of its type, a positive count,
  \<open>intrusive_ptr_add_ref\<close> and \<open>SIMIX_process_ref\<close> return normally and the count is
  then negative. The object is given with a 32-bit counter (\<open>int_fast32_t\<close> as \<open>int\<close>)
  and with a 64-bit counter (\<open>int_fast32_t\<close> as \<open>long\<close>).
\<close>

theorem refcount_overflow_counterexample:
  "refcount_of [0 \<mapsto> \<lparr>refcount = 0x7FFFFFFF :: 32 word, actor = \<lparr>pimpl = Some 0\<rparr>\<rparr>] 0
     = Some 2147483647 \<and>
   (case intrusive_ptr_add_ref 0
           [0 \<mapsto> \<lparr>refcount = 0x7FFFFFFF :: 32 word, actor = \<lparr>pimpl = Some 0\<rparr>\<rparr>] of
      Inl e \<Rightarrow> False
    | Inr h' \<Rightarrow> refcount_of h' 0 = Some (- 2147483648)) \<and>
   (case SIMIX_process_ref (Some 0)
           [0 \<mapsto> \<lparr>refcount = 0x7FFFFFFF :: 32 word, actor = \<lparr>pimpl = Some 0\<rparr>\<rparr>] of
      Inl e \<Rightarrow> False
    | Inr (q, h') \<Rightarrow> q = Some 0 \<and> refcount_of h' 0 = Some (- 2147483648)) \<and>
   refcount_of [0 \<mapsto> \<lparr>refcount = 0x7FFFFFFFFFFFFFFF :: 64 word, actor = \<lparr>pimpl = Some 0\<rparr>\<rparr>] 0
     = Some 9223372036854775807 \<and>
   (case intrusive_ptr_add_ref 0
           [0 \<mapsto> \<lparr>refcount = 0x7FFFFFFFFFFFFFFF :: 64 word, actor = \<lparr>pimpl = Some 0\<rparr>\<rparr>] of
      Inl e \<Rightarrow> False
    | Inr h' \<Rightarrow> refcount_of h' 0 = Some (- 9223372036854775808)) \<and>
   (case SIMIX_process_ref (Some 0)
           [0 \<mapsto> \<lparr>refcount = 0x7FFFFFFFFFFFFFFF :: 64 word, actor = \<lparr>pimpl = Some 0\<rparr>\<rparr>] of
      Inl e \<Rightarrow> False
    | Inr (q, h') \<Rightarrow> q = Some 0 \<and> refcount_of h' 0 = Some (- 9223372036854775808))"
  by (simp add: SIMIX_process_ref_def intrusive_ptr_add_ref_def refcount_of_def)

section \<open>Capture followed by restore\<close>

text \<open>
  Every region that \<open>capture\<close> enumerates is a known-valid region, so each of its reads
  succeeds and copies the bytes of the process.
\<close>

lemma in_region_self: "in_region r (region_start r) (region_size r)"
  by (simp add: in_region_def)

lemma capture_regions_valid: "set (capture_regions p) \<subseteq> set (valid_regions p)"
  by (auto simp: capture_regions_def valid_regions_def)

lemma copy_regions_valid:
  "set rs \<subseteq> set (valid_regions p) \<Longrightarrow>
   copy_regions p rs =
     Inr (map (\<lambda>r. (r, map (memory p) [region_start r ..< region_start r + region_size r])) rs)"
proof (induction rs)
  case Nil
  then show ?case by simp
next
  case (Cons r rs)
  then have "\<exists>r' \<in> set (valid_regions p). in_region r' (region_start r) (region_size r)"
    using in_region_self [of r] by auto
  then have "readBytes p (region_start r) (region_size r)
      = Inr (map (memory p) [region_start r ..< region_start r + region_size r])"
    by (simp add: readBytes_def)
  with Cons show ?case by simp
qed

text \<open>
  Writes change the memory only, so the regions stay valid from one write to the next,
  and a list of copies of one memory leaves that memory's bytes wherever a region holds
  the address, and the old bytes elsewhere.
\<close>

lemma valid_regions_memory [simp]: "valid_regions (p\<lparr>memory := m\<rparr>) = valid_regions p"
  by (simp add: valid_regions_def)

lemma write_regions_valid:
  "\<forall>(r, bs) \<in> set cs. r \<in> set (valid_regions p) \<and> length bs = region_size r \<Longrightarrow>
   write_regions p cs = Inr (p\<lparr>memory := write_all (memory p) cs\<rparr>)"
proof (induction cs arbitrary: p)
  case Nil
  then show ?case by simp
next
  case (Cons c cs)
  obtain r bs where c: "c = (r, bs)" by (cases c)
  from Cons.prems c have r: "r \<in> set (valid_regions p)" and len: "length bs = region_size r"
    by auto
  have "\<exists>r' \<in> set (valid_regions p). in_region r' (region_start r) (length bs)"
    using r len in_region_self [of r] by auto
  then have w: "writeBytes p (region_start r) bs
      = Inr (p\<lparr>memory := write_mem (memory p) (region_start r) bs\<rparr>)"
    by (simp add: writeBytes_def)
  have "\<forall>(r, bs) \<in> set cs.
      r \<in> set (valid_regions (p\<lparr>memory := write_mem (memory p) (region_start r) bs\<rparr>)) \<and>
      length bs = region_size r"
    using Cons.prems by auto
  then have "write_regions (p\<lparr>memory := write_mem (memory p) (region_start r) bs\<rparr>) cs
      = Inr (p\<lparr>memory := write_mem (memory p) (region_start r) bs\<rparr>
              \<lparr>memory := write_all (write_mem (memory p) (region_start r) bs) cs\<rparr>)"
    using Cons.IH [of "p\<lparr>memory := write_mem (memory p) (region_start r) bs\<rparr>"] by simp
  with w c show ?case by simp
qed

lemma write_all_copies:
  "write_all m (map (\<lambda>r. (r, map f [region_start r ..< region_start r + region_size r])) rs) x
     = (if regions_hold rs x then f x else m x)"
proof (induction rs arbitrary: m)
  case Nil
  then show ?case by (simp add: regions_hold_def)
next
  case (Cons r rs)
  have here: "write_mem m (region_start r)
        (map f [region_start r ..< region_start r + region_size r]) x
      = (if region_holds r x then f x else m x)"
    by (auto simp: write_mem_def region_holds_def)
  show ?case
    by (simp add: Cons.IH here) (auto simp: regions_hold_def)
qed


lemma capture_result:
  "capture digest p =
     Inr \<lparr>snap_layout = images p,
          snap_regions =
            map (\<lambda>r. (r, map (memory p) [region_start r ..< region_start r + region_size r]))
              (capture_regions p),
          snap_heap = heap_table p,
          fingerprint = digest (concat (map snd
            (map (\<lambda>r. (r, map (memory p) [region_start r ..< region_start r + region_size r]))
              (capture_regions p))))\<rparr>"
  by (simp add: capture_def copy_regions_valid [OF capture_regions_valid])

lemma restore_captured:
  assumes "images q = images p"
  shows "restore q
           \<lparr>snap_layout = images p,
            snap_regions =
              map (\<lambda>r. (r, map (memory p) [region_start r ..< region_start r + region_size r]))
                (capture_regions p),
            snap_heap = heap_table p, fingerprint = fp\<rparr>
         = Inr (q\<lparr>heap_table := heap_table p,
                  memory := (\<lambda>x. if regions_hold (capture_regions p) x then memory p x
                                  else memory q x)\<rparr>)"
proof -
  let ?cs = "map (\<lambda>r. (r, map (memory p) [region_start r ..< region_start r + region_size r]))
                (capture_regions p)"
  let ?q = "q\<lparr>heap_table := heap_table p\<rparr>"
  have v: "valid_regions ?q = valid_regions p"
    using assms by (simp add: valid_regions_def)
  have "\<forall>(r, bs) \<in> set ?cs. r \<in> set (valid_regions ?q) \<and> length bs = region_size r"
    using capture_regions_valid [of p] by (auto simp: v)
  then have "write_regions ?q ?cs = Inr (?q\<lparr>memory := write_all (memory ?q) ?cs\<rparr>)"
    by (rule write_regions_valid)
  moreover have "write_all (memory ?q) ?cs
      = (\<lambda>x. if regions_hold (capture_regions p) x then memory p x else memory q x)"
    by (rule ext) (simp add: write_all_copies)
  ultimately show ?thesis
    using assms by (simp add: restore_def)
qed

lemma in_region_holds:
  "in_region r a n \<Longrightarrow> a \<le> x \<Longrightarrow> x < a + n \<Longrightarrow> region_holds r x"
  by (simp add: in_region_def region_holds_def)

lemma readBytes_cong:
  assumes v: "valid_regions r = valid_regions p"
      and m: "\<forall>x. regions_hold (valid_regions p) x \<longrightarrow> memory r x = memory p x"
  shows "readBytes r a n = readBytes p a n"
proof (cases "\<exists>t \<in> set (valid_regions p). in_region t a n")
  case True
  then obtain t where t: "t \<in> set (valid_regions p)" "in_region t a n" by blast
  have "memory r x = memory p x" if "x \<in> set [a ..< a + n]" for x
  proof -
    from that have "region_holds t x" using t(2) by (auto intro: in_region_holds)
    then have "regions_hold (valid_regions p) x" using t(1) by (auto simp: regions_hold_def)
    then show ?thesis using m by simp
  qed
  then have "map (memory r) [a ..< a + n] = map (memory p) [a ..< a + n]"
    by (simp only: map_eq_conv) blast
  with True v show ?thesis by (simp add: readBytes_def)
next
  case False
  with v show ?thesis by (simp add: readBytes_def)
qed

text \<open>
  The restored process after a capture of \<open>p\<close> and a restore onto \<open>q\<close>: its reads are
  those of \<open>p\<close> when \<open>q\<close> has the layout of \<open>p\<close> and agrees with \<open>p\<close> on the valid
  addresses that were not captured.
\<close>

lemma restored_reads:
  assumes layout: "images q = images p"
      and unchanged: "\<forall>x. regions_hold (valid_regions p) x \<and>
                         \<not> regions_hold (capture_regions p) x \<longrightarrow> memory q x = memory p x"
  shows "readBytes (q\<lparr>heap_table := heap_table p,
                      memory := (\<lambda>x. if regions_hold (capture_regions p) x then memory p x
                                      else memory q x)\<rparr>) a n
         = readBytes p a n"
proof -
  let ?r = "q\<lparr>heap_table := heap_table p,
              memory := (\<lambda>x. if regions_hold (capture_regions p) x then memory p x
                              else memory q x)\<rparr>"
  have v: "valid_regions ?r = valid_regions p"
    using layout by (simp add: valid_regions_def)
  have m: "\<forall>x. regions_hold (valid_regions p) x \<longrightarrow> memory ?r x = memory p x"
    using unchanged by simp
  show ?thesis using v m by (rule readBytes_cong)
qed

text \<open>
  C1. Let \<open>p\<close> be the state of a Live Process when it is captured, whatever its
  loaded-image layout. \<open>capture\<close> returns a snapshot \<open>s\<close>, and \<open>restore\<close> of \<open>s\<close> onto
  \<open>p\<close> succeeds and gives \<open>p\<close> back: the same bytes at every address and the same
  heap-tracking table. Further, let \<open>q\<close> be a later state of the same process: its layout
  is the one of \<open>p\<close> and the bytes at \<open>p\<close>'s valid addresses that were not captured (the
  read-only segments) are as in \<open>p\<close>; its captured regions, its heap-tracking table and
  everything outside \<open>p\<close>'s valid regions may differ. Then \<open>restore\<close> of \<open>s\<close> onto \<open>q\<close>
  succeeds, and in the restored process the heap-tracking table is the one of \<open>p\<close> and
  every read returns what it returned in \<open>p\<close>: the same bytes at every range that was
  valid at capture time.
\<close>

theorem capture_restore_roundtrip:
  "\<exists>s. capture digest p = Inr s \<and>
        restore p s = Inr p \<and>
        (images q = images p \<and>
         (\<forall>x. regions_hold (valid_regions p) x \<and> \<not> regions_hold (capture_regions p) x
               \<longrightarrow> memory q x = memory p x) \<longrightarrow>
         (\<exists>r. restore q s = Inr r \<and>
               images r = images p \<and> heap_table r = heap_table p \<and>
               (\<forall>a n. readBytes r a n = readBytes p a n)))"
proof -
  let ?s = "\<lparr>snap_layout = images p,
            snap_regions =
              map (\<lambda>r. (r, map (memory p) [region_start r ..< region_start r + region_size r]))
                (capture_regions p),
            snap_heap = heap_table p,
            fingerprint = digest (concat (map snd
              (map (\<lambda>r. (r, map (memory p) [region_start r ..< region_start r + region_size r]))
                (capture_regions p))))\<rparr>"
  have cap: "capture digest p = Inr ?s"
    by (rule capture_result)
  have "restore p ?s
        = Inr (p\<lparr>heap_table := heap_table p,
                 memory := (\<lambda>x. if regions_hold (capture_regions p) x then memory p x
                                 else memory p x)\<rparr>)"
    by (rule restore_captured) simp
  then have same: "restore p ?s = Inr p" by simp
  have later: "\<exists>r. restore q ?s = Inr r \<and>
               images r = images p \<and> heap_table r = heap_table p \<and>
               (\<forall>a n. readBytes r a n = readBytes p a n)"
    if layout: "images q = images p"
      and unchanged: "\<forall>x. regions_hold (valid_regions p) x \<and>
                         \<not> regions_hold (capture_regions p) x \<longrightarrow> memory q x = memory p x"
  proof -
    let ?r = "q\<lparr>heap_table := heap_table p,
                memory := (\<lambda>x. if regions_hold (capture_regions p) x then memory p x
                                else memory q x)\<rparr>"
    have "restore q ?s = Inr ?r"
      using layout by (rule restore_captured)
    moreover have "\<forall>a n. readBytes ?r a n = readBytes p a n"
      using restored_reads [OF layout unchanged] by blast
    ultimately show ?thesis using layout by simp
  qed
  from cap same later show ?thesis by blast
qed

text \<open>
  The theorem on the scenario: before the restore the block at 20000 is not readable
  and the table differs; after it the table holds exactly the block of 64 bytes at 20000
  and the reads are those of the captured state.
\<close>

theorem capture_restore_roundtrip_witness:
  "images scenario_after = images scenario_before \<and>
   heap_table scenario_after \<noteq> heap_table scenario_before \<and>
   readBytes scenario_after 20000 64 = Inl NotMapped \<and>
   (\<exists>s r. capture length scenario_before = Inr s \<and> restore scenario_after s = Inr r \<and>
      heap_table r = [\<lparr>block_start = 20000, block_size = 64, generation = 1\<rparr>] \<and>
      readBytes r 20000 64 = readBytes scenario_before 20000 64 \<and>
      readBytes r 8192 4 = Inr [1, 1, 1, 1] \<and>
      readBytes r 4096 8 = Inr [7, 7, 7, 7, 7, 7, 7, 7])"
proof -
  have layout: "images scenario_after = images scenario_before"
    by (simp add: scenario_after_def scenario_before_def)
  have unchanged: "\<forall>x. regions_hold (valid_regions scenario_before) x \<and>
      \<not> regions_hold (capture_regions scenario_before) x \<longrightarrow>
      memory scenario_after x = memory scenario_before x"
    by (auto simp: scenario_after_def scenario_before_def regions_hold_def region_holds_def
        valid_regions_def capture_regions_def block_region_def)
  have changed: "heap_table scenario_after \<noteq> heap_table scenario_before"
    by (simp add: scenario_after_def scenario_before_def)
  have gone: "readBytes scenario_after 20000 64 = Inl NotMapped"
    by (simp add: readBytes_def scenario_after_def valid_regions_def in_region_def block_region_def)
  have r1: "readBytes scenario_before 8192 4 = Inr [1, 1, 1, 1]"
    by (simp add: readBytes_def scenario_before_def valid_regions_def in_region_def
        block_region_def upt_rec)
  have r2: "readBytes scenario_before 4096 8 = Inr [7, 7, 7, 7, 7, 7, 7, 7]"
    by (simp add: readBytes_def scenario_before_def valid_regions_def in_region_def
        block_region_def upt_rec)
  have h: "heap_table scenario_before = [\<lparr>block_start = 20000, block_size = 64, generation = 1\<rparr>]"
    by (simp add: scenario_before_def)
  from capture_restore_roundtrip [of length scenario_before scenario_after] layout unchanged
  obtain s r where "capture length scenario_before = Inr s" "restore scenario_after s = Inr r"
    "heap_table r = heap_table scenario_before"
    "\<forall>a n. readBytes r a n = readBytes scenario_before a n"
    by blast
  with layout changed gone r1 r2 h show ?thesis by auto
qed

end
